theory Spec2Isabelle
  imports Complex_Main "HOL-Library.Word"
begin

unbundle bit_operations_syntax

section \<open>The ECHONET Lite client (v2h\_api.py)\<close>

text \<open>
  Bytes are 8-bit words. Python integers are unbounded and are modelled by \<open>int\<close>
  (or by \<open>nat\<close> where the source can only produce a non-negative value). A Python
  float is modelled by the rational number it stands for: the only float operations of
  the client are one true division by \<open>1000.0\<close> and comparisons with \<open>0\<close>; the
  model keeps the exact quotient, of which the float is the nearest double, and the
  sign of the quotient is the sign of the float. Timestamps are microseconds.
\<close>

type_synonym byte = "8 word"
type_synonym timestamp = int
type_synonym timedelta = int

text \<open>The exceptions the modelled code can raise.\<close>

datatype py_error = ValueError | OverflowError | SocketTimeout | OSError

definition EHD1 :: int where "EHD1 = 0x10"
definition EHD2 :: int where "EHD2 = 0x81"
definition ESV_GET :: int where "ESV_GET = 0x62"
definition ESV_GET_RES :: int where "ESV_GET_RES = 0x72"

text \<open>
  \<open>self._seoj\<close> and \<open>self._deoj\<close> are assigned once by the constructor and never
  written again; \<open>self._tid\<close> is the only field the client mutates.
\<close>

definition SEOJ :: "int list" where "SEOJ = [0x0E, 0xF0, 0x01]"
definition DEOJ :: "int list" where "DEOJ = [0x02, 0x7E, 0x01]"

record client =
  tid :: int

definition NichiconV2HClient_init :: client where
  "NichiconV2HClient_init = \<lparr>tid = 1\<rparr>"

record V2HStatus =
  charging_power_kw :: "rat option"
  discharging_power_kw :: "rat option"
  mode :: "string option"
  raw_hex :: "string option"
  updated_at :: "timestamp option"

subsection \<open>Building the GET frame\<close>

text \<open>\<open>bytearray(xs)\<close> and \<open>bytearray.extend(xs)\<close> raise ValueError on an element
  outside \<open>range(0, 256)\<close>.\<close>

definition bytearray :: "int list \<Rightarrow> py_error + byte list" where
  "bytearray xs =
     (if list_all (\<lambda>x. 0 \<le> x \<and> x < 256) xs then Inr (map word_of_int xs)
      else Inl ValueError)"

definition next_tid :: "client \<Rightarrow> client \<times> int \<times> int" where
  "next_tid c =
     (let t = (tid c + 1) AND 0xFFFF
      in (c\<lparr>tid := t\<rparr>, (drop_bit 8 t) AND 0xFF, t AND 0xFF))"

text \<open>The loop \<open>for epc in epcs: props.extend([epc, 0x00])\<close>.\<close>

fun extend_props :: "byte list \<Rightarrow> int list \<Rightarrow> py_error + byte list" where
  "extend_props props [] = Inr props"
| "extend_props props (epc # rest) =
     (case bytearray [epc, 0x00] of
        Inl e \<Rightarrow> Inl e
      | Inr bs \<Rightarrow> extend_props (props @ bs) rest)"

definition build_get_frame :: "client \<Rightarrow> int list \<Rightarrow> client \<times> (py_error + byte list)" where
  "build_get_frame c epcs =
     (case next_tid c of (c', tid_hi, tid_lo) \<Rightarrow>
        (case extend_props [] epcs of
           Inl e \<Rightarrow> (c', Inl e)
         | Inr props \<Rightarrow>
             (let opc = int (length epcs) in
              case bytearray ([EHD1, EHD2, tid_hi, tid_lo] @ SEOJ @ DEOJ @ [ESV_GET, opc]) of
                Inl e \<Rightarrow> (c', Inl e)
              | Inr frame \<Rightarrow> (c', Inr (frame @ props)))))"

subsection \<open>Parsing the response\<close>

text \<open>\<open>bytes.hex()\<close>: two lower-case hexadecimal digits per byte.\<close>

definition hex_digit :: "nat \<Rightarrow> char" where
  "hex_digit n = ''0123456789abcdef'' ! (n mod 16)"

definition byte_hex :: "byte \<Rightarrow> string" where
  "byte_hex b = [hex_digit (unat b div 16), hex_digit (unat b mod 16)]"

definition bytes_hex :: "byte list \<Rightarrow> string" where
  "bytes_hex data = concat (map byte_hex data)"

text \<open>
  \<open>int(s, 16)\<close> on a slice of \<open>bytes.hex()\<close> output. Such a slice holds hexadecimal
  digits only, so the sign, prefix, underscore and whitespace forms that \<open>int\<close> also
  accepts cannot occur; the empty slice raises ValueError.
\<close>

definition digit_value :: "char \<Rightarrow> nat option" where
  "digit_value c =
     (let n = (of_char c :: nat) in
      if 48 \<le> n \<and> n \<le> 57 then Some (n - 48)
      else if 97 \<le> n \<and> n \<le> 102 then Some (n - 87)
      else if 65 \<le> n \<and> n \<le> 70 then Some (n - 55)
      else None)"

fun int16_acc :: "nat \<Rightarrow> string \<Rightarrow> py_error + nat" where
  "int16_acc acc [] = Inr acc"
| "int16_acc acc (c # cs) =
     (case digit_value c of
        None \<Rightarrow> Inl ValueError
      | Some d \<Rightarrow> int16_acc (16 * acc + d) cs)"

definition int16 :: "string \<Rightarrow> py_error + nat" where
  "int16 s = (if s = [] then Inl ValueError else int16_acc 0 s)"

text \<open>The slice \<open>s[i:j]\<close> for \<open>0 \<le> i\<close> and \<open>0 \<le> j\<close>: it never raises, it truncates.\<close>

definition py_slice :: "'a list \<Rightarrow> nat \<Rightarrow> nat \<Rightarrow> 'a list" where
  "py_slice s i j = drop i (take j s)"

text \<open>\<open>sub in s\<close> is \<open>str_find sub s \<noteq> None\<close>, and \<open>s.index(sub)\<close> is its value: the
  first position at which \<open>sub\<close> starts.\<close>

fun str_find :: "string \<Rightarrow> string \<Rightarrow> nat option" where
  "str_find sub [] = (if sub = [] then Some 0 else None)"
| "str_find sub (c # cs) =
     (if take (length sub) (c # cs) = sub then Some 0
      else map_option Suc (str_find sub cs))"

text \<open>
  \<open>n / 1000.0\<close> for an int \<open>n\<close>: the int is converted to a float first, which raises
  OverflowError once it rounds to \<open>2 ^ 1024\<close>, that is from \<open>2 ^ 1024 - 2 ^ 970\<close> on.
\<close>

definition truediv_1000 :: "nat \<Rightarrow> py_error + rat" where
  "truediv_1000 n =
     (if 2 ^ 1024 - 2 ^ 970 \<le> n then Inl OverflowError else Inr (of_nat n / 1000))"

text \<open>The body of each \<open>try\<close> block, for the position \<open>idx\<close> of the tag.\<close>

definition read_power :: "string \<Rightarrow> nat \<Rightarrow> py_error + rat" where
  "read_power response_hex idx =
     (case int16 (py_slice response_hex (idx + 2) (idx + 4)) of
        Inl e \<Rightarrow> Inl e
      | Inr pdc \<Rightarrow>
          (let edt_hex = py_slice response_hex (idx + 4) (idx + 4 + pdc * 2) in
           case int16 edt_hex of
             Inl e \<Rightarrow> Inl e
           | Inr v \<Rightarrow> truediv_1000 v))"

text \<open>
  \<open>if tag in response_hex: idx = response_hex.index(tag); try: ... except Exception\<close>:
  the handler logs a warning and leaves the value \<open>None\<close>.
\<close>

definition parse_epc :: "string \<Rightarrow> string \<Rightarrow> rat option" where
  "parse_epc tag response_hex =
     (case str_find tag response_hex of
        None \<Rightarrow> None
      | Some idx \<Rightarrow>
          (case read_power response_hex idx of
             Inr kw \<Rightarrow> Some kw
           | Inl err \<Rightarrow> None))"

definition derive_mode :: "rat option \<Rightarrow> rat option \<Rightarrow> string" where
  "derive_mode charging_kw discharging_kw =
     (if (case charging_kw of None \<Rightarrow> False | Some c \<Rightarrow> c > 0) then ''charging''
      else if (case discharging_kw of None \<Rightarrow> False | Some d \<Rightarrow> d > 0) then ''discharging''
      else ''idle'')"

definition parse_realtime_response :: "byte list \<Rightarrow> timestamp \<Rightarrow> V2HStatus" where
  "parse_realtime_response data utcnow =
     (let response_hex = bytes_hex data;
          charging_kw = parse_epc ''d3'' response_hex;
          discharging_kw = parse_epc ''d4'' response_hex
      in \<lparr>charging_power_kw = charging_kw,
          discharging_power_kw = discharging_kw,
          mode = Some (derive_mode charging_kw discharging_kw),
          raw_hex = Some response_hex,
          updated_at = Some utcnow\<rparr>)"

subsection \<open>The request\<close>

text \<open>
  The datagram exchange is the environment: \<open>exchange payload\<close> is what the socket
  gives back, a datagram or the exception it raised. Both handlers of
  \<open>_send_and_recv\<close> log and re-raise.
\<close>

definition send_and_recv ::
  "(byte list \<Rightarrow> py_error + byte list) \<Rightarrow> byte list \<Rightarrow> py_error + byte list" where
  "send_and_recv exchange payload =
     (case exchange payload of
        Inr data \<Rightarrow> Inr data
      | Inl err \<Rightarrow> Inl err)"

definition get_realtime_status ::
  "client \<Rightarrow> (byte list \<Rightarrow> py_error + byte list) \<Rightarrow> timestamp
     \<Rightarrow> client \<times> (py_error + V2HStatus)" where
  "get_realtime_status c exchange utcnow =
     (case build_get_frame c [0xD3, 0xD4] of
        (c', Inl e) \<Rightarrow> (c', Inl e)
      | (c', Inr frame) \<Rightarrow>
          (case send_and_recv exchange frame of
             Inl e \<Rightarrow> (c', Inl e)
           | Inr resp \<Rightarrow> (c', Inr (parse_realtime_response resp utcnow))))"

section \<open>The recovery supervisor (nissan\_recovery.py)\<close>

text \<open>
  \<open>RecoveryStep\<close> is a string enumeration. The step machine also stores the two
  strings \<open>STEP3_CONNECTOR_RESET + "_LOCK"\<close> and \<open>STEP4_START_CHARGE + "_STOP"\<close> in
  \<open>self._step\<close> and compares against them; they are the constructors
  \<open>STEP3_CONNECTOR_RESET_LOCK\<close> and \<open>STEP4_START_CHARGE_STOP\<close>.
\<close>

datatype RecoveryStep =
    IDLE
  | STEP1_TIMER_TOGGLE
  | STEP2_START_DISCHARGE
  | STEP3_CONNECTOR_RESET
  | STEP3_CONNECTOR_RESET_LOCK
  | STEP4_START_CHARGE
  | STEP4_START_CHARGE_STOP
  | DONE
  | FAILED

text \<open>
  The observed powers and the thresholds are floats that the supervisor only compares;
  they are modelled by the rationals they stand for (finite values). A float literal
  is the rational value of its double.
\<close>

record NissanObservedState =
  connected :: bool
  cable_locked :: bool
  soc :: "rat option"
  charging_kw :: rat
  discharging_kw :: rat
  grid_sold_kw :: rat
  grid_bought_kw :: rat

record RecoveryConfig =
  chg_on_kw :: rat
  dis_on_kw :: rat
  stuck_after :: timedelta
  cooldown_after_success :: timedelta
  cooldown_after_failure :: timedelta
  wait_after_step1 :: timedelta
  wait_after_step2 :: timedelta
  wait_between_unlock_lock :: timedelta
  wait_after_step3 :: timedelta
  step4_charge_duration :: timedelta
  wait_after_step4_stop :: timedelta
  max_attempts :: int

text \<open>The doubles written \<open>0.05\<close> and \<open>0.2\<close>.\<close>

definition double_0_05 :: rat where
  "double_0_05 = 3602879701896397 / 72057594037927936"

definition double_0_2 :: rat where
  "double_0_2 = 3602879701896397 / 18014398509481984"

definition seconds :: "int \<Rightarrow> timedelta" where
  "seconds n = n * 1000000"

definition minutes :: "int \<Rightarrow> timedelta" where
  "minutes n = n * 60000000"

definition RecoveryConfig_default :: RecoveryConfig where
  "RecoveryConfig_default =
     \<lparr>chg_on_kw = double_0_2,
      dis_on_kw = double_0_2,
      stuck_after = minutes 3,
      cooldown_after_success = minutes 10,
      cooldown_after_failure = minutes 30,
      wait_after_step1 = seconds 60,
      wait_after_step2 = seconds 60,
      wait_between_unlock_lock = seconds 15,
      wait_after_step3 = seconds 60,
      step4_charge_duration = minutes 10,
      wait_after_step4_stop = seconds 10,
      max_attempts = 2\<rparr>"

text \<open>The constructor's arguments that the controller keeps and never changes.\<close>

record RecoverySetup =
  cfg :: RecoveryConfig
  services :: "string \<rightharpoonup> string"
  supports_timer_toggles :: bool

text \<open>The fields \<open>tick\<close> mutates.\<close>

record NissanRecoveryController =
  step :: RecoveryStep
  attempt :: int
  since_idle_wrong :: "timestamp option"
  next_action_at :: "timestamp option"
  cooldown_until :: "timestamp option"

definition NissanRecoveryController_init :: NissanRecoveryController where
  "NissanRecoveryController_init =
     \<lparr>step = IDLE, attempt = 0, since_idle_wrong = None, next_action_at = None,
      cooldown_until = None\<rparr>"

text \<open>
  What a tick does to the outside: \<open>ButtonPress e\<close> is the service call
  \<open>button.press\<close> on entity \<open>e\<close>; \<open>ToggleOptionalTimers\<close> is the call of
  \<open>_toggle_optional_timers\<close>, whose body is not part of the sources. Service calls
  are taken to return.
\<close>

datatype actuator_call = ButtonPress string | ToggleOptionalTimers

text \<open>
  The sources end inside the controller class: the bodies of \<open>_reset\<close> and
  \<open>_enter_cooldown\<close> are not part of them. The step machine takes both as
  parameters, as functions on the controller's fields. Both are called without
  \<open>await\<close>, so neither waits for a service call; and either may read the clock, so
  the functions are given per tick.
\<close>

record helpers =
  reset_h :: "NissanRecoveryController \<Rightarrow> NissanRecoveryController"
  enter_cooldown_h :: "bool \<Rightarrow> NissanRecoveryController \<Rightarrow> NissanRecoveryController"

text \<open>Modelled from the spec: the body of \<open>_reset\<close> is missing from the sources. The spec
  says of it: abandon any in-progress recovery, clear attempt counter and pending
  timestamps, return to Idle.
\<close>

definition reset_spec :: "NissanRecoveryController \<Rightarrow> NissanRecoveryController" where
  "reset_spec s =
     s\<lparr>step := IDLE, attempt := 0, since_idle_wrong := None, next_action_at := None\<rparr>"

text \<open>Modelled from the spec: the body of \<open>_enter_cooldown\<close> is missing from the sources.
  The spec says of it: a cooldown is a window after a recovery outcome during which no
  further intervention is attempted, kept as the timestamp until which it lasts; the
  failure cooldown is the longer one. On success (step 8 of the tick): enter Done, then a
  success cooldown, reset attempt counter, return to Idle; the source returns right after
  the call, so the reset and the return to Idle are the helper's. On failure (step 7):
  enter Failed and a failure cooldown, the attempt counter being reset only by the return
  to Idle on a later tick; the source sets Failed itself after the call. \<open>utcnow\<close> is
  the clock reading the cooldown starts from.
\<close>

definition enter_cooldown_spec ::
  "RecoveryConfig \<Rightarrow> timestamp \<Rightarrow> bool \<Rightarrow> NissanRecoveryController \<Rightarrow> NissanRecoveryController" where
  "enter_cooldown_spec c utcnow failure s =
     (if failure
      then s\<lparr>cooldown_until := Some (utcnow + cooldown_after_failure c)\<rparr>
      else s\<lparr>cooldown_until := Some (utcnow + cooldown_after_success c),
             attempt := 0, step := IDLE\<rparr>)"

definition spec_helpers :: "RecoveryConfig \<Rightarrow> timestamp \<Rightarrow> helpers" where
  "spec_helpers c utcnow =
     \<lparr>reset_h = reset_spec, enter_cooldown_h = enter_cooldown_spec c utcnow\<rparr>"

subsection \<open>Decision helpers and actuators\<close>

definition is_active :: "RecoveryConfig \<Rightarrow> NissanObservedState \<Rightarrow> bool" where
  "is_active c obs \<longleftrightarrow> charging_kw obs \<ge> chg_on_kw c \<or> discharging_kw obs \<ge> dis_on_kw c"

definition should_be_active :: "NissanObservedState \<Rightarrow> bool" where
  "should_be_active obs \<longleftrightarrow> grid_sold_kw obs > double_0_05 \<or> grid_bought_kw obs > double_0_05"

text \<open>\<open>in_cooldown\<close> reads the clock itself; \<open>utcnow\<close> is that reading.\<close>

definition in_cooldown :: "NissanRecoveryController \<Rightarrow> timestamp \<Rightarrow> bool" where
  "in_cooldown s utcnow =
     (case cooldown_until s of None \<Rightarrow> False | Some until \<Rightarrow> utcnow < until)"

text \<open>\<open>if not entity_id: return\<close> covers a missing key and an empty string.\<close>

definition press_button :: "(string \<rightharpoonup> string) \<Rightarrow> string \<Rightarrow> actuator_call list" where
  "press_button svc logical =
     (case svc logical of
        None \<Rightarrow> []
      | Some entity_id \<Rightarrow> if entity_id = [] then [] else [ButtonPress entity_id])"

definition first_step :: "RecoverySetup \<Rightarrow> RecoveryStep" where
  "first_step su =
     (if supports_timer_toggles su then STEP1_TIMER_TOGGLE else STEP2_START_DISCHARGE)"

subsection \<open>The step machine\<close>

definition run_steps ::
  "RecoverySetup \<Rightarrow> helpers \<Rightarrow> NissanObservedState \<Rightarrow> timestamp
     \<Rightarrow> NissanRecoveryController \<Rightarrow> NissanRecoveryController \<times> actuator_call list" where
  "run_steps su h obs now s =
     (if (case next_action_at s of None \<Rightarrow> False | Some due \<Rightarrow> now < due) then (s, [])
      else if is_active (cfg su) obs then (enter_cooldown_h h False (s\<lparr>step := DONE\<rparr>), [])
      else if step s = STEP1_TIMER_TOGGLE then
        (s\<lparr>next_action_at := Some (now + wait_after_step1 (cfg su)),
           step := STEP2_START_DISCHARGE\<rparr>,
         [ToggleOptionalTimers])
      else if step s = STEP2_START_DISCHARGE then
        (s\<lparr>next_action_at := Some (now + wait_after_step2 (cfg su)),
           step := STEP3_CONNECTOR_RESET\<rparr>,
         press_button (services su) ''start_discharge'')
      else if step s = STEP3_CONNECTOR_RESET then
        (s\<lparr>next_action_at := Some (now + wait_between_unlock_lock (cfg su)),
           step := STEP3_CONNECTOR_RESET_LOCK\<rparr>,
         press_button (services su) ''unlock_connector'')
      else if step s = STEP3_CONNECTOR_RESET_LOCK then
        (s\<lparr>next_action_at := Some (now + wait_after_step3 (cfg su)),
           step := STEP4_START_CHARGE\<rparr>,
         press_button (services su) ''lock_connector'')
      else if step s = STEP4_START_CHARGE then
        (s\<lparr>next_action_at := Some (now + step4_charge_duration (cfg su)),
           step := STEP4_START_CHARGE_STOP\<rparr>,
         press_button (services su) ''start_charge'')
      else if step s = STEP4_START_CHARGE_STOP then
        (s\<lparr>next_action_at := Some (now + wait_after_step4_stop (cfg su)),
           step := first_step su\<rparr>,
         press_button (services su) ''stop'')
      else (reset_h h s, []))"

text \<open>
  One supervisor tick. \<open>now\<close> is the clock reading taken on entry, \<open>now_cd\<close> the one
  \<open>in_cooldown\<close> takes.
\<close>

definition tick ::
  "RecoverySetup \<Rightarrow> helpers \<Rightarrow> NissanObservedState \<Rightarrow> timestamp \<Rightarrow> timestamp
     \<Rightarrow> NissanRecoveryController \<Rightarrow> NissanRecoveryController \<times> actuator_call list" where
  "tick su h obs now now_cd s =
     (if \<not> connected obs then (reset_h h s, [])
      else if \<not> cable_locked obs then (s, press_button (services su) ''lock_connector'')
      else if in_cooldown s now_cd then (s, [])
      else
        (let active = is_active (cfg su) obs;
             should = should_be_active obs;
             s1 = (if should \<and> \<not> active
                   then (if since_idle_wrong s = None then s\<lparr>since_idle_wrong := Some now\<rparr> else s)
                   else s\<lparr>since_idle_wrong := None\<rparr>);
             stuck = (should \<and> \<not> active \<and>
                      (case since_idle_wrong s1 of
                         None \<Rightarrow> False
                       | Some since \<Rightarrow> now - since \<ge> stuck_after (cfg su)))
         in if step s1 = IDLE \<and> \<not> stuck then (s1, [])
            else if step s1 = IDLE \<and> stuck then
              (let s2 = s1\<lparr>attempt := attempt s1 + 1\<rparr> in
               if attempt s2 > max_attempts (cfg su)
               then ((enter_cooldown_h h True s2)\<lparr>step := FAILED\<rparr>, [])
               else run_steps su h obs now
                      (s2\<lparr>step := first_step su, next_action_at := Some now\<rparr>))
            else run_steps su h obs now s1))"

text \<open>
  The polling loop calls \<open>tick\<close> once per cycle; a run is the list of its observations
  and clock readings, and the calls of a run are those of its ticks in order.
\<close>

fun run_ticks ::
  "RecoverySetup \<Rightarrow> helpers \<Rightarrow> (NissanObservedState \<times> timestamp \<times> timestamp) list
     \<Rightarrow> NissanRecoveryController \<Rightarrow> NissanRecoveryController \<times> actuator_call list" where
  "run_ticks su h [] s = (s, [])"
| "run_ticks su h ((obs, now, now_cd) # rest) s =
     (case tick su h obs now now_cd s of
        (s', calls) \<Rightarrow>
          (case run_ticks su h rest s' of
             (s'', calls') \<Rightarrow> (s'', calls @ calls')))"

section \<open>Properties of the client\<close>

subsection \<open>Auxiliary facts\<close>

lemma and_ffff: "(x::int) AND 0xFFFF = x mod 65536"
proof -
  have "x AND 0xFFFF = x AND mask 16" by (simp add: mask_eq_exp_minus_1)
  also have "\<dots> = take_bit 16 x" by (simp add: take_bit_eq_mask)
  also have "\<dots> = x mod 65536" by (simp add: take_bit_eq_mod)
  finally show ?thesis .
qed

lemma and_ff: "(x::int) AND 0xFF = x mod 256"
proof -
  have "x AND 0xFF = x AND mask 8" by (simp add: mask_eq_exp_minus_1)
  also have "\<dots> = take_bit 8 x" by (simp add: take_bit_eq_mask)
  also have "\<dots> = x mod 256" by (simp add: take_bit_eq_mod)
  finally show ?thesis .
qed

lemma next_tid_eq:
  "next_tid c =
     (c\<lparr>tid := (tid c + 1) mod 65536\<rparr>,
      ((tid c + 1) mod 65536) div 256, ((tid c + 1) mod 65536) mod 256)"
proof -
  have "0 \<le> (tid c + 1) mod 65536" "(tid c + 1) mod 65536 < 65536" by simp_all
  then have "((tid c + 1) mod 65536) div 256 mod 256 = ((tid c + 1) mod 65536) div 256"
    by (intro mod_pos_pos_trivial) auto
  then show ?thesis
    by (simp add: next_tid_def Let_def and_ffff and_ff drop_bit_eq_div)
qed

lemma extend_props_ok:
  "list_all (\<lambda>e. 0 \<le> e \<and> e < 256) epcs \<Longrightarrow>
   extend_props props epcs = Inr (props @ concat (map (\<lambda>e. [word_of_int e, 0]) epcs))"
  by (induction epcs arbitrary: props) (simp_all add: bytearray_def)

lemma build_d3_d4:
  "build_get_frame NichiconV2HClient_init [0xD3, 0xD4] =
     (\<lparr>tid = 2\<rparr>, Inr [0x10, 0x81, 0x00, 0x02, 0x0E, 0xF0, 0x01, 0x02, 0x7E, 0x01,
                       0x62, 0x02, 0xD3, 0x00, 0xD4, 0x00])"
  by (simp add: build_get_frame_def next_tid_def NichiconV2HClient_init_def bytearray_def
      EHD1_def EHD2_def SEOJ_def DEOJ_def ESV_GET_def)

lemmas parse_eval = parse_realtime_response_def bytes_hex_def byte_hex_def hex_digit_def
  parse_epc_def read_power_def py_slice_def int16_def digit_value_def truediv_1000_def
  derive_mode_def




lemma parse_epc_nothing_left:
  "str_find tag s = Some i \<Longrightarrow> length s \<le> i + 4 \<Longrightarrow> parse_epc tag s = None"
  by (auto simp add: parse_epc_def read_power_def py_slice_def int16_def split: sum.splits)

lemma digit_value_hex_digit: "\<exists>d. digit_value (hex_digit n) = Some d"
proof -
  have enum: "k = 0 \<or> k = 1 \<or> k = 2 \<or> k = 3 \<or> k = 4 \<or> k = 5 \<or> k = 6 \<or> k = 7 \<or> k = 8 \<or>
      k = 9 \<or> k = 10 \<or> k = 11 \<or> k = 12 \<or> k = 13 \<or> k = 14 \<or> k = 15"
    if "k < 16" for k :: nat
    using that by arith
  have "n mod 16 < 16" by simp
  from enum [OF this] show ?thesis
    unfolding hex_digit_def
    by (elim disjE) (simp_all add: digit_value_def)
qed

lemma bytes_hex_digits: "c \<in> set (bytes_hex data) \<Longrightarrow> \<exists>d. digit_value c = Some d"
  by (auto simp add: bytes_hex_def byte_hex_def digit_value_hex_digit)

lemma int16_acc_digits:
  "(\<And>c. c \<in> set s \<Longrightarrow> \<exists>d. digit_value c = Some d) \<Longrightarrow> \<exists>n. int16_acc acc s = Inr n"
proof (induction s arbitrary: acc)
  case Nil
  show ?case by simp
next
  case (Cons c s)
  from Cons.prems [of c] obtain d where d: "digit_value c = Some d" by auto
  from Cons.IH [of "16 * acc + d"] Cons.prems show ?case by (simp add: d)
qed

lemma int16_slice:
  assumes "py_slice (bytes_hex data) i j \<noteq> []"
  shows "\<exists>n. int16 (py_slice (bytes_hex data) i j) = Inr n"
proof -
  have "\<exists>d. digit_value c = Some d" if "c \<in> set (py_slice (bytes_hex data) i j)" for c
  proof -
    from that have "c \<in> set (bytes_hex data)"
      by (auto simp add: py_slice_def dest: in_set_dropD in_set_takeD)
    then show ?thesis by (rule bytes_hex_digits)
  qed
  from int16_acc_digits [OF this] assms show ?thesis by (simp add: int16_def)
qed

lemma parse_epc_None_iff:
  "parse_epc tag (bytes_hex data) = None \<longleftrightarrow>
     (case str_find tag (bytes_hex data) of
        None \<Rightarrow> True
      | Some i \<Rightarrow>
          length (bytes_hex data) \<le> i + 4 \<or>
          (\<exists>pdc. int16 (py_slice (bytes_hex data) (i + 2) (i + 4)) = Inr pdc \<and>
             (pdc = 0 \<or>
              (\<exists>v. int16 (py_slice (bytes_hex data) (i + 4) (i + 4 + pdc * 2)) = Inr v \<and>
                   2 ^ 1024 - 2 ^ 970 \<le> v))))"
proof (cases "str_find tag (bytes_hex data)")
  case None
  then show ?thesis by (simp add: parse_epc_def)
next
  case (Some i)
  let ?hex = "bytes_hex data"
  show ?thesis
  proof (cases "length ?hex \<le> i + 4")
    case True
    with Some show ?thesis by (simp add: parse_epc_nothing_left)
  next
    case False
    then have "py_slice ?hex (i + 2) (i + 4) \<noteq> []" by (simp add: py_slice_def)
    then obtain pdc where pdc: "int16 (py_slice ?hex (i + 2) (i + 4)) = Inr pdc"
      using int16_slice by blast
    show ?thesis
    proof (cases "pdc = 0")
      case True
      with Some pdc False show ?thesis
        by (simp add: parse_epc_def read_power_def py_slice_def int16_def)
    next
      case nz: False
      with False have "py_slice ?hex (i + 4) (i + 4 + pdc * 2) \<noteq> []" by (simp add: py_slice_def)
      then obtain v where v: "int16 (py_slice ?hex (i + 4) (i + 4 + pdc * 2)) = Inr v"
        using int16_slice by blast
      with Some pdc False nz show ?thesis
        by (simp add: parse_epc_def read_power_def truediv_1000_def)
    qed
  qed
qed




lemma derive_mode_cases:
  "derive_mode c d \<in> {''charging'', ''discharging'', ''idle''}"
  by (simp add: derive_mode_def)

subsection \<open>The request frame\<close>

text \<open>
  C7. For a list of property ids that are bytes and fit the one-byte count, the GET
  frame is exactly: the markers 0x10 and 0x81, the transaction id (the old one plus one,
  modulo 65536) high byte first, the source object code 0E F0 01, the destination object
  code 02 7E 01, the service code 0x62, the number of requested ids, and then one entry
  (EPC, 0x00) per id in the order given. The result is a function of the client's
  transaction id and the list, and for such inputs it is never an error.
\<close>

theorem build_get_frame_exact:
  assumes "list_all (\<lambda>e. 0 \<le> e \<and> e < 256) epcs" and "length epcs < 256"
  shows "build_get_frame c epcs =
    (c\<lparr>tid := (tid c + 1) mod 65536\<rparr>,
     Inr ([0x10, 0x81,
           word_of_int (((tid c + 1) mod 65536) div 256),
           word_of_int (((tid c + 1) mod 65536) mod 256),
           0x0E, 0xF0, 0x01, 0x02, 0x7E, 0x01, 0x62,
           word_of_int (int (length epcs))]
          @ concat (map (\<lambda>e. [word_of_int e, 0x00]) epcs)))"
proof -
  let ?t = "(tid c + 1) mod 65536"
  have t: "0 \<le> ?t" "?t < 65536" by simp_all
  then have hi: "0 \<le> ?t div 256" "?t div 256 < 256" by auto
  have lo: "0 \<le> ?t mod 256" "?t mod 256 < 256" by simp_all
  show ?thesis
    using assms hi lo
    by (simp add: build_get_frame_def next_tid_eq extend_props_ok bytearray_def
        EHD1_def EHD2_def SEOJ_def DEOJ_def ESV_GET_def)
qed

theorem build_get_frame_exact_witness:
  "list_all (\<lambda>e. 0 \<le> e \<and> e < 256) [0xD3, 0xD4 :: int] \<and> length [0xD3, 0xD4 :: int] < 256 \<and>
   build_get_frame NichiconV2HClient_init [0xD3, 0xD4] =
     (\<lparr>tid = 2\<rparr>, Inr [0x10, 0x81, 0x00, 0x02, 0x0E, 0xF0, 0x01, 0x02, 0x7E, 0x01,
                       0x62, 0x02, 0xD3, 0x00, 0xD4, 0x00])"
  using build_get_frame_exact [of "[0xD3, 0xD4]" NichiconV2HClient_init]
  by (simp add: NichiconV2HClient_init_def)

subsection \<open>The derived mode\<close>

text \<open>
  C8. The mode of a snapshot is chosen from the two decoded powers, each of which may be
  absent, by the three-way rule: a charging power that is present and positive gives
  "charging"; otherwise a discharging power that is present and positive gives
  "discharging"; otherwise "idle".
\<close>

theorem mode_is_three_way:
  "(derive_mode c d = ''charging'' \<longleftrightarrow> (\<exists>x. c = Some x \<and> 0 < x)) \<and>
   (derive_mode c d = ''discharging'' \<longleftrightarrow>
      \<not> (\<exists>x. c = Some x \<and> 0 < x) \<and> (\<exists>y. d = Some y \<and> 0 < y)) \<and>
   (derive_mode c d = ''idle'' \<longleftrightarrow>
      \<not> (\<exists>x. c = Some x \<and> 0 < x) \<and> \<not> (\<exists>y. d = Some y \<and> 0 < y)) \<and>
   mode (parse_realtime_response data now) =
     Some (derive_mode (charging_power_kw (parse_realtime_response data now))
                       (discharging_power_kw (parse_realtime_response data now)))"
proof -
  have "derive_mode c d = ''charging'' \<longleftrightarrow> (\<exists>x. c = Some x \<and> 0 < x)"
    by (cases c; cases d) (simp_all add: derive_mode_def)
  moreover have "derive_mode c d = ''discharging'' \<longleftrightarrow>
      \<not> (\<exists>x. c = Some x \<and> 0 < x) \<and> (\<exists>y. d = Some y \<and> 0 < y)"
    by (cases c; cases d) (simp_all add: derive_mode_def)
  moreover have "derive_mode c d = ''idle'' \<longleftrightarrow>
      \<not> (\<exists>x. c = Some x \<and> 0 < x) \<and> \<not> (\<exists>y. d = Some y \<and> 0 < y)"
    by (cases c; cases d) (simp_all add: derive_mode_def)
  moreover have "mode (parse_realtime_response data now) =
     Some (derive_mode (charging_power_kw (parse_realtime_response data now))
                       (discharging_power_kw (parse_realtime_response data now)))"
    by (simp add: parse_realtime_response_def Let_def)
  ultimately show ?thesis by blast
qed

text \<open>
  C10. For every byte string the parser returns a snapshot: it carries the hex text of
  the input and the time stamp, and its mode is one of "charging", "discharging" and
  "idle", never absent; when neither power could be decoded the mode is "idle". Every
  operation of the source that can raise sits in a \<open>try\<close> block whose handler catches
  it, which is why the parser is a total function of its input.
\<close>

theorem parse_total_mode:
  "mode (parse_realtime_response data now) \<in>
     {Some ''charging'', Some ''discharging'', Some ''idle''} \<and>
   raw_hex (parse_realtime_response data now) = Some (bytes_hex data) \<and>
   updated_at (parse_realtime_response data now) = Some now \<and>
   (charging_power_kw (parse_realtime_response data now) = None \<and>
    discharging_power_kw (parse_realtime_response data now) = None \<longrightarrow>
      mode (parse_realtime_response data now) = Some ''idle'')"
  using derive_mode_cases [of "parse_epc ''d3'' (bytes_hex data)" "parse_epc ''d4'' (bytes_hex data)"]
  by (auto simp add: parse_realtime_response_def Let_def derive_mode_def)

theorem parse_total_mode_witness:
  "charging_power_kw (parse_realtime_response [] 0) = None \<and>
   discharging_power_kw (parse_realtime_response [] 0) = None \<and>
   mode (parse_realtime_response [] 0) = Some ''idle''"
  using parse_total_mode [of "[]" 0] by (simp add: parse_eval)

subsection \<open>What the parser checks\<close>




subsection \<open>Where the parser looks for a property\<close>

text \<open>
  C2, at three well-formed responses. The parser takes the first place where the hex
  text of the whole datagram reads \<open>d3\<close> (or \<open>d4\<close>), not the first property entry
  with that EPC. With transaction id 0x00D3 and the entry D3 02 01F4, the charging
  power comes out as 32.257 (read from the source object code 02 7E 01 that follows
  the transaction id) instead of 0.5; the same response with transaction id 0x0001
  gives 0.5. With the entries D3 02 00D4 and D4 02 0000, the discharging power comes
  out as 131.072 (read from inside the data of the D3 entry) instead of 0.
\<close>

theorem decode_d3_wrong_entry:
  "charging_power_kw (parse_realtime_response
     [0x10, 0x81, 0x00, 0xd3, 0x02, 0x7e, 0x01, 0x0e, 0xf0, 0x01, 0x72, 0x02,
      0xd3, 0x02, 0x01, 0xf4, 0xd4, 0x02, 0x00, 0x00] 0) = Some (32257 / 1000) \<and>
   charging_power_kw (parse_realtime_response
     [0x10, 0x81, 0x00, 0x01, 0x02, 0x7e, 0x01, 0x0e, 0xf0, 0x01, 0x72, 0x02,
      0xd3, 0x02, 0x01, 0xf4, 0xd4, 0x02, 0x00, 0x00] 0) = Some (1 / 2) \<and>
   discharging_power_kw (parse_realtime_response
     [0x10, 0x81, 0x00, 0x01, 0x02, 0x7e, 0x01, 0x0e, 0xf0, 0x01, 0x72, 0x02,
      0xd3, 0x02, 0x00, 0xd4, 0xd4, 0x02, 0x00, 0x00] 0) = Some (16384 / 125)"
  by (simp add: parse_eval)

subsection \<open>Errors of a status request\<close>

text \<open>
  C3, as the code has it. A timeout or socket error of the exchange reaches the caller
  as that very exception. A response always yields a snapshot, and no decode failure
  reaches the caller. A power is absent in the snapshot (\<open>None\<close>, not zero) exactly
  when the hex text of the response nowhere reads \<open>d3\<close> (\<open>d4\<close> for discharging), or
  when decoding at the first such place raises: the text ends within four hex digits of
  that place, the length read there is zero, or the value read is too large for a
  float. Every other response, a truncated one included, is decoded as a number.
\<close>

theorem get_realtime_status_outcomes:
  assumes "build_get_frame c [0xD3, 0xD4] = (c', Inr frame)"
  shows "(exchange frame = Inl err \<longrightarrow> get_realtime_status c exchange now = (c', Inl err)) \<and>
     (exchange frame = Inr resp \<longrightarrow>
        get_realtime_status c exchange now = (c', Inr (parse_realtime_response resp now)) \<and>
        (charging_power_kw (parse_realtime_response resp now) = None \<longleftrightarrow>
           (case str_find ''d3'' (bytes_hex resp) of
              None \<Rightarrow> True
            | Some i \<Rightarrow>
                length (bytes_hex resp) \<le> i + 4 \<or>
                (\<exists>pdc. int16 (py_slice (bytes_hex resp) (i + 2) (i + 4)) = Inr pdc \<and>
                   (pdc = 0 \<or>
                    (\<exists>v. int16 (py_slice (bytes_hex resp) (i + 4) (i + 4 + pdc * 2)) = Inr v \<and>
                         2 ^ 1024 - 2 ^ 970 \<le> v))))) \<and>
        (discharging_power_kw (parse_realtime_response resp now) = None \<longleftrightarrow>
           (case str_find ''d4'' (bytes_hex resp) of
              None \<Rightarrow> True
            | Some i \<Rightarrow>
                length (bytes_hex resp) \<le> i + 4 \<or>
                (\<exists>pdc. int16 (py_slice (bytes_hex resp) (i + 2) (i + 4)) = Inr pdc \<and>
                   (pdc = 0 \<or>
                    (\<exists>v. int16 (py_slice (bytes_hex resp) (i + 4) (i + 4 + pdc * 2)) = Inr v \<and>
                         2 ^ 1024 - 2 ^ 970 \<le> v))))))"
proof -
  have fields: "charging_power_kw (parse_realtime_response resp now) = parse_epc ''d3'' (bytes_hex resp)"
    "discharging_power_kw (parse_realtime_response resp now) = parse_epc ''d4'' (bytes_hex resp)"
    by (simp_all add: parse_realtime_response_def Let_def)
  have a: "exchange frame = Inl err \<longrightarrow> get_realtime_status c exchange now = (c', Inl err)"
    using assms by (simp add: get_realtime_status_def send_and_recv_def)
  have b: "exchange frame = Inr resp \<longrightarrow>
        get_realtime_status c exchange now = (c', Inr (parse_realtime_response resp now))"
    using assms by (simp add: get_realtime_status_def send_and_recv_def)
  from a b show ?thesis
    unfolding fields parse_epc_None_iff [of "''d3''" resp] parse_epc_None_iff [of "''d4''" resp]
    by blast
qed

theorem get_realtime_status_outcomes_witness:
  "build_get_frame NichiconV2HClient_init [0xD3, 0xD4] =
     (\<lparr>tid = 2\<rparr>, Inr [0x10, 0x81, 0x00, 0x02, 0x0E, 0xF0, 0x01, 0x02, 0x7E, 0x01,
                       0x62, 0x02, 0xD3, 0x00, 0xD4, 0x00]) \<and>
   get_realtime_status NichiconV2HClient_init (\<lambda>_. Inl SocketTimeout) 0 =
     (\<lparr>tid = 2\<rparr>, Inl SocketTimeout) \<and>
   get_realtime_status NichiconV2HClient_init (\<lambda>_. Inr [0xd3, 0xd4]) 0 =
     (\<lparr>tid = 2\<rparr>, Inr (parse_realtime_response [0xd3, 0xd4] 0)) \<and>
   charging_power_kw (parse_realtime_response [0xd3, 0xd4] 0) = None \<and>
   discharging_power_kw (parse_realtime_response [0xd3, 0xd4] 0) = None"
proof -
  note b = build_d3_d4
  have e3: "str_find ''d3'' (bytes_hex [0xd3, 0xd4]) = Some 0"
    and e4: "str_find ''d4'' (bytes_hex [0xd3, 0xd4]) = Some 2"
    and len: "length (bytes_hex [0xd3, 0xd4]) = 4"
    by (simp_all add: bytes_hex_def byte_hex_def hex_digit_def)
  show ?thesis
    using get_realtime_status_outcomes [OF b, where exchange = "\<lambda>_. Inl SocketTimeout"
        and err = SocketTimeout and now = 0]
      get_realtime_status_outcomes [OF b, where exchange = "\<lambda>_. Inr [0xd3, 0xd4]" and now = 0
        and resp = "[0xd3, 0xd4]"]
      b
    by (simp add: e3 e4 len)
qed

text \<open>
  Against C3 as stated. The device answers with both properties empty (length 0):
  decoding the charging power raises ValueError at the entry at hex position 24, and so
  does decoding the discharging power, yet the caller receives a snapshot, not an error.
  And a response cut one byte short of its end (entry D3 02 with the single data byte
  00 left) is no error either: the caller receives a snapshot with charging power 0.
\<close>

theorem get_realtime_status_counterexample:
  "read_power (bytes_hex [0x10, 0x81, 0x00, 0x02, 0x02, 0x7e, 0x01, 0x0e, 0xf0, 0x01, 0x72, 0x02,
                          0xd3, 0x00, 0xd4, 0x00]) 24 = Inl ValueError \<and>
   get_realtime_status NichiconV2HClient_init
     (\<lambda>_. Inr [0x10, 0x81, 0x00, 0x02, 0x02, 0x7e, 0x01, 0x0e, 0xf0, 0x01, 0x72, 0x02,
                0xd3, 0x00, 0xd4, 0x00]) 0 =
     (\<lparr>tid = 2\<rparr>,
      Inr \<lparr>charging_power_kw = None, discharging_power_kw = None, mode = Some ''idle'',
           raw_hex = Some ''10810002027e010ef0017202d300d400'', updated_at = Some 0\<rparr>) \<and>
   get_realtime_status NichiconV2HClient_init
     (\<lambda>_. Inr [0x10, 0x81, 0x00, 0x02, 0x02, 0x7e, 0x01, 0x0e, 0xf0, 0x01, 0x72, 0x01,
                0xd3, 0x02, 0x00]) 0 =
     (\<lparr>tid = 2\<rparr>,
      Inr \<lparr>charging_power_kw = Some 0, discharging_power_kw = None, mode = Some ''idle'',
           raw_hex = Some ''10810002027e010ef0017201d30200'', updated_at = Some 0\<rparr>)"
  by (simp add: get_realtime_status_def send_and_recv_def build_d3_d4 parse_eval)

section \<open>Properties of the supervisor\<close>

subsection \<open>Single ticks\<close>

lemma not_active: "charging_kw obs < chg_on_kw c \<Longrightarrow> discharging_kw obs < dis_on_kw c \<Longrightarrow> \<not> is_active c obs"
  by (simp add: is_active_def)

lemma sold_should: "grid_sold_kw obs > double_0_05 \<Longrightarrow> should_be_active obs"
  by (simp add: should_be_active_def)

lemma tick_idle_first:
  assumes "step s = IDLE" and "since_idle_wrong s = None"
    and "connected obs" and "cable_locked obs" and "\<not> in_cooldown s now_cd"
    and "should_be_active obs" and "\<not> is_active (cfg su) obs"
    and "0 < stuck_after (cfg su)"
  shows "tick su h obs now now_cd s = (s\<lparr>since_idle_wrong := Some now\<rparr>, [])"
  using assms by (simp add: tick_def Let_def)

lemma tick_idle_wait:
  assumes "step s = IDLE" and "since_idle_wrong s = Some t0"
    and "connected obs" and "cable_locked obs" and "\<not> in_cooldown s now_cd"
    and "should_be_active obs" and "\<not> is_active (cfg su) obs"
    and "now - t0 < stuck_after (cfg su)"
  shows "tick su h obs now now_cd s = (s, [])"
  using assms by (simp add: tick_def Let_def)

lemma run_steps_first:
  assumes "\<not> is_active (cfg su) obs" and "next_action_at s = Some now" and "step s = first_step su"
  shows "run_steps su h obs now s =
     (if supports_timer_toggles su
      then (s\<lparr>next_action_at := Some (now + wait_after_step1 (cfg su)),
              step := STEP2_START_DISCHARGE\<rparr>, [ToggleOptionalTimers])
      else (s\<lparr>next_action_at := Some (now + wait_after_step2 (cfg su)),
              step := STEP3_CONNECTOR_RESET\<rparr>, press_button (services su) ''start_discharge''))"
  using assms by (simp add: run_steps_def first_step_def)

lemma tick_idle_fire:
  assumes "step s = IDLE"
    and "since_idle_wrong s = Some t0 \<or> since_idle_wrong s = None \<and> t0 = now"
    and "connected obs" and "cable_locked obs" and "\<not> in_cooldown s now_cd"
    and "should_be_active obs" and "\<not> is_active (cfg su) obs"
    and "stuck_after (cfg su) \<le> now - t0"
    and "attempt s < max_attempts (cfg su)"
  shows "tick su h obs now now_cd s =
     (if supports_timer_toggles su
      then (s\<lparr>since_idle_wrong := Some t0, attempt := attempt s + 1,
              next_action_at := Some (now + wait_after_step1 (cfg su)),
              step := STEP2_START_DISCHARGE\<rparr>, [ToggleOptionalTimers])
      else (s\<lparr>since_idle_wrong := Some t0, attempt := attempt s + 1,
              next_action_at := Some (now + wait_after_step2 (cfg su)),
              step := STEP3_CONNECTOR_RESET\<rparr>, press_button (services su) ''start_discharge''))"
proof -
  let ?s1 = "s\<lparr>since_idle_wrong := Some t0\<rparr>"
  let ?s3 = "?s1\<lparr>attempt := attempt s + 1, step := first_step su, next_action_at := Some now\<rparr>"
  have same: "since_idle_wrong s = Some t0 \<Longrightarrow> ?s1 = s"
    by simp
  have "tick su h obs now now_cd s = run_steps su h obs now ?s3"
    using assms(2)
  proof
    assume a: "since_idle_wrong s = Some t0"
    have "tick su h obs now now_cd ?s1 = run_steps su h obs now ?s3"
      using assms a by (simp add: tick_def Let_def in_cooldown_def)
    then show ?thesis by (simp only: same [OF a])
  next
    assume "since_idle_wrong s = None \<and> t0 = now"
    then show ?thesis
      using assms by (simp add: tick_def Let_def)
  qed
  also have "\<dots> = (if supports_timer_toggles su
      then (?s3\<lparr>next_action_at := Some (now + wait_after_step1 (cfg su)),
              step := STEP2_START_DISCHARGE\<rparr>, [ToggleOptionalTimers])
      else (?s3\<lparr>next_action_at := Some (now + wait_after_step2 (cfg su)),
              step := STEP3_CONNECTOR_RESET\<rparr>, press_button (services su) ''start_discharge''))"
    using assms(7) by (intro run_steps_first) simp_all
  finally show ?thesis by simp
qed

lemma run_ticks_waiting:
  assumes "step s = IDLE" and "since_idle_wrong s = Some t0"
    and "list_all (\<lambda>(obs, t, t_cd). connected obs \<and> cable_locked obs \<and> \<not> in_cooldown s t_cd \<and>
            should_be_active obs \<and> \<not> is_active (cfg su) obs \<and> t - t0 < stuck_after (cfg su)) ticks"
  shows "run_ticks su h ticks s = (s, [])"
  using assms(3)
proof (induction ticks)
  case Nil
  show ?case by simp
next
  case (Cons x ticks)
  obtain obs t t_cd where x: "x = (obs, t, t_cd)" by (cases x)
  from Cons.prems x have *: "connected obs" "cable_locked obs" "\<not> in_cooldown s t_cd"
    "should_be_active obs" "\<not> is_active (cfg su) obs" "t - t0 < stuck_after (cfg su)"
    by simp_all
  have "tick su h obs t t_cd s = (s, [])"
    by (rule tick_idle_wait [OF assms(1,2) *])
  moreover from Cons have "run_ticks su h ticks s = (s, [])" by simp
  ultimately show ?case by (simp add: x)
qed

lemma run_ticks_early:
  assumes "step s = IDLE" and "since_idle_wrong s = None" and "ticks \<noteq> []"
    and "t0 = fst (snd (hd ticks))"
    and "list_all (\<lambda>(obs, t, t_cd). connected obs \<and> cable_locked obs \<and> \<not> in_cooldown s t_cd \<and>
            should_be_active obs \<and> \<not> is_active (cfg su) obs \<and> t - t0 < stuck_after (cfg su)) ticks"
  shows "run_ticks su h ticks s = (s\<lparr>since_idle_wrong := Some t0\<rparr>, [])"
proof -
  obtain obs t_cd rest where ticks: "ticks = (obs, t0, t_cd) # rest"
    using assms(3,4) by (cases ticks) auto
  let ?s = "s\<lparr>since_idle_wrong := Some t0\<rparr>"
  from assms(5) have *: "connected obs" "cable_locked obs" "\<not> in_cooldown s t_cd"
    "should_be_active obs" "\<not> is_active (cfg su) obs" "0 < stuck_after (cfg su)"
    by (simp_all add: ticks)
  have first: "tick su h obs t0 t_cd s = (?s, [])"
    by (rule tick_idle_first [OF assms(1,2) *])
  have "list_all (\<lambda>(obs, t, t_cd). connected obs \<and> cable_locked obs \<and> \<not> in_cooldown ?s t_cd \<and>
            should_be_active obs \<and> \<not> is_active (cfg su) obs \<and> t - t0 < stuck_after (cfg su)) rest"
    using assms(5) by (simp add: ticks in_cooldown_def)
  then have "run_ticks su h rest ?s = (?s, [])"
    using assms(1) by (intro run_ticks_waiting [where ?t0.0 = t0]) simp_all
  with first show ?thesis by (simp add: ticks)
qed

lemma run_steps_branches:
  assumes "case next_action_at s of None \<Rightarrow> True | Some due \<Rightarrow> due \<le> now"
    and "\<not> is_active (cfg su) obs"
  shows "step s = STEP2_START_DISCHARGE \<Longrightarrow> run_steps su h obs now s =
           (s\<lparr>next_action_at := Some (now + wait_after_step2 (cfg su)),
              step := STEP3_CONNECTOR_RESET\<rparr>, press_button (services su) ''start_discharge'')"
    and "step s = STEP3_CONNECTOR_RESET \<Longrightarrow> run_steps su h obs now s =
           (s\<lparr>next_action_at := Some (now + wait_between_unlock_lock (cfg su)),
              step := STEP3_CONNECTOR_RESET_LOCK\<rparr>, press_button (services su) ''unlock_connector'')"
    and "step s = STEP3_CONNECTOR_RESET_LOCK \<Longrightarrow> run_steps su h obs now s =
           (s\<lparr>next_action_at := Some (now + wait_after_step3 (cfg su)),
              step := STEP4_START_CHARGE\<rparr>, press_button (services su) ''lock_connector'')"
    and "step s = STEP4_START_CHARGE \<Longrightarrow> run_steps su h obs now s =
           (s\<lparr>next_action_at := Some (now + step4_charge_duration (cfg su)),
              step := STEP4_START_CHARGE_STOP\<rparr>, press_button (services su) ''start_charge'')"
    and "step s = STEP4_START_CHARGE_STOP \<Longrightarrow> run_steps su h obs now s =
           (s\<lparr>next_action_at := Some (now + wait_after_step4_stop (cfg su)),
              step := first_step su\<rparr>, press_button (services su) ''stop'')"
proof -
  have g: "\<not> (case next_action_at s of None \<Rightarrow> False | Some due \<Rightarrow> now < due)"
    using assms(1) by (cases "next_action_at s") simp_all
  show "step s = STEP2_START_DISCHARGE \<Longrightarrow> run_steps su h obs now s =
           (s\<lparr>next_action_at := Some (now + wait_after_step2 (cfg su)),
              step := STEP3_CONNECTOR_RESET\<rparr>, press_button (services su) ''start_discharge'')"
    using g assms(2) by (simp add: run_steps_def)
  show "step s = STEP3_CONNECTOR_RESET \<Longrightarrow> run_steps su h obs now s =
           (s\<lparr>next_action_at := Some (now + wait_between_unlock_lock (cfg su)),
              step := STEP3_CONNECTOR_RESET_LOCK\<rparr>, press_button (services su) ''unlock_connector'')"
    using g assms(2) by (simp add: run_steps_def)
  show "step s = STEP3_CONNECTOR_RESET_LOCK \<Longrightarrow> run_steps su h obs now s =
           (s\<lparr>next_action_at := Some (now + wait_after_step3 (cfg su)),
              step := STEP4_START_CHARGE\<rparr>, press_button (services su) ''lock_connector'')"
    using g assms(2) by (simp add: run_steps_def)
  show "step s = STEP4_START_CHARGE \<Longrightarrow> run_steps su h obs now s =
           (s\<lparr>next_action_at := Some (now + step4_charge_duration (cfg su)),
              step := STEP4_START_CHARGE_STOP\<rparr>, press_button (services su) ''start_charge'')"
    using g assms(2) by (simp add: run_steps_def)
  show "step s = STEP4_START_CHARGE_STOP \<Longrightarrow> run_steps su h obs now s =
           (s\<lparr>next_action_at := Some (now + wait_after_step4_stop (cfg su)),
              step := first_step su\<rparr>, press_button (services su) ''stop'')"
    using g assms(2) by (simp add: run_steps_def)
qed





lemmas sup_eval = tick_def run_steps_def in_cooldown_def is_active_def should_be_active_def
  press_button_def first_step_def RecoveryConfig_default_def double_0_05_def double_0_2_def
  seconds_def minutes_def NissanRecoveryController_init_def spec_helpers_def reset_spec_def
  enter_cooldown_spec_def Let_def

subsection \<open>The cooldown gate\<close>

text \<open>
  C6, as the code has it. \<open>tick\<close> reads the clock on entry, and \<open>in_cooldown\<close> reads
  it again. A tick that finds the vehicle connected and the cable locked while the
  reading that \<open>in_cooldown\<close> takes is before \<open>cooldown_until\<close> does nothing: it
  issues no actuator call, and step, attempt counter and all three timestamps stay as
  they were, whatever the observed powers are and whatever the two missing helper
  bodies do.
\<close>

theorem cooldown_tick_is_noop:
  assumes "connected obs" and "cable_locked obs"
    and "cooldown_until s = Some until" and "now_cd < until"
  shows "tick su h obs now now_cd s = (s, [])"
  using assms by (simp add: tick_def in_cooldown_def)

theorem cooldown_tick_is_noop_witness:
  "(let obs = \<lparr>connected = True, cable_locked = True, soc = None, charging_kw = 0,
                discharging_kw = 0, grid_sold_kw = 1, grid_bought_kw = 0\<rparr>;
        su = \<lparr>cfg = RecoveryConfig_default,
               services = [''start_discharge'' \<mapsto> ''button.v2h_start_discharge''],
               supports_timer_toggles = False\<rparr>;
        h = spec_helpers RecoveryConfig_default 200000000;
        s = \<lparr>step = IDLE, attempt = 0, since_idle_wrong = Some 0, next_action_at = None,
              cooldown_until = Some 600000000\<rparr>
    in tick su h obs 200000000 200000000 s = (s, []) \<and>
       snd (tick su h obs 200000000 200000000 (s\<lparr>cooldown_until := None\<rparr>)) =
         [ButtonPress ''button.v2h_start_discharge''])"
proof -
  define obs where "obs = \<lparr>connected = True, cable_locked = True, soc = None, charging_kw = 0,
                discharging_kw = 0, grid_sold_kw = 1, grid_bought_kw = 0\<rparr>"
  define su where "su = \<lparr>cfg = RecoveryConfig_default,
               services = [''start_discharge'' \<mapsto> ''button.v2h_start_discharge''],
               supports_timer_toggles = False\<rparr>"
  define h where "h = spec_helpers RecoveryConfig_default 200000000"
  define s where "s = \<lparr>step = IDLE, attempt = 0, since_idle_wrong = Some 0,
              next_action_at = None, cooldown_until = Some (600000000 :: int)\<rparr>"
  have 1: "connected obs" and 2: "cable_locked obs" by (simp_all add: obs_def)
  have 3: "cooldown_until s = Some 600000000" by (simp add: s_def)
  have 4: "(200000000 :: int) < 600000000" by simp
  have held: "tick su h obs 200000000 200000000 s = (s, [])"
    by (rule cooldown_tick_is_noop [OF 1 2 3 4])
  have free: "snd (tick su h obs 200000000 200000000 (s\<lparr>cooldown_until := None\<rparr>)) =
         [ButtonPress ''button.v2h_start_discharge'']"
    by (simp add: obs_def su_def h_def s_def sup_eval)
  from held free show ?thesis
    by (simp add: obs_def su_def h_def s_def Let_def)
qed

text \<open>
  Against C6 as stated: the tick's own reading (199.999999 s) is before the deadline
  (200 s), the reading of \<open>in_cooldown\<close> (200 s) is not; the stuck condition has held
  since 0 s, and the tick counts an attempt, presses start\_discharge and moves on.
\<close>

theorem cooldown_tick_is_noop_counterexample:
  "(let obs = \<lparr>connected = True, cable_locked = True, soc = None, charging_kw = 0,
                discharging_kw = 0, grid_sold_kw = 1, grid_bought_kw = 0\<rparr>;
        su = \<lparr>cfg = RecoveryConfig_default,
               services = [''start_discharge'' \<mapsto> ''button.v2h_start_discharge''],
               supports_timer_toggles = False\<rparr>;
        h = spec_helpers RecoveryConfig_default 200000000;
        s = \<lparr>step = IDLE, attempt = 0, since_idle_wrong = Some 0, next_action_at = None,
              cooldown_until = Some 200000000\<rparr>
    in (199999999 :: int) < 200000000 \<and>
       tick su h obs 199999999 200000000 s =
         (\<lparr>step = STEP3_CONNECTOR_RESET, attempt = 1, since_idle_wrong = Some 0,
           next_action_at = Some 259999999, cooldown_until = Some 200000000\<rparr>,
          [ButtonPress ''button.v2h_start_discharge'']))"
  by (simp add: sup_eval)

subsection \<open>A press without a configured entity\<close>

text \<open>
  C9. When the services dictionary has no entry for the logical action of a pressing
  step, \<open>_press_button\<close> makes no service call, and the step branch nevertheless moves
  on: once the wait gate is open and the device is not active, the controller is left
  in the following step with the next action time set to now plus that step's wait,
  the very state it is left in when the entity is configured and the call is made.
\<close>

theorem unmapped_press_still_advances:
  assumes unmapped: "services su logical = None"
    and gate: "case next_action_at s of None \<Rightarrow> True | Some due \<Rightarrow> due \<le> now"
    and inactive: "\<not> is_active (cfg su) obs"
    and entity: "entity \<noteq> []"
  shows "press_button (services su) logical = [] \<and>
    (step s = STEP2_START_DISCHARGE \<and> logical = ''start_discharge'' \<and>
       nxt = STEP3_CONNECTOR_RESET \<and> wait = wait_after_step2 (cfg su) \<or>
     step s = STEP3_CONNECTOR_RESET \<and> logical = ''unlock_connector'' \<and>
       nxt = STEP3_CONNECTOR_RESET_LOCK \<and> wait = wait_between_unlock_lock (cfg su) \<or>
     step s = STEP3_CONNECTOR_RESET_LOCK \<and> logical = ''lock_connector'' \<and>
       nxt = STEP4_START_CHARGE \<and> wait = wait_after_step3 (cfg su) \<or>
     step s = STEP4_START_CHARGE \<and> logical = ''start_charge'' \<and>
       nxt = STEP4_START_CHARGE_STOP \<and> wait = step4_charge_duration (cfg su) \<or>
     step s = STEP4_START_CHARGE_STOP \<and> logical = ''stop'' \<and>
       nxt = first_step su \<and> wait = wait_after_step4_stop (cfg su) \<longrightarrow>
     run_steps su h obs now s = (s\<lparr>next_action_at := Some (now + wait), step := nxt\<rparr>, []) \<and>
     run_steps (su\<lparr>services := (services su)(logical \<mapsto> entity)\<rparr>) h obs now s =
       (s\<lparr>next_action_at := Some (now + wait), step := nxt\<rparr>, [ButtonPress entity]))"
proof (intro conjI impI)
  let ?su = "su\<lparr>services := (services su)(logical \<mapsto> entity)\<rparr>"
  show p: "press_button (services su) logical = []"
    using unmapped by (simp add: press_button_def)
  have q: "press_button (services ?su) logical = [ButtonPress entity]"
    using entity by (simp add: press_button_def)
  have f: "first_step ?su = first_step su" "cfg ?su = cfg su"
    by (simp_all add: first_step_def)
  have inactive': "\<not> is_active (cfg ?su) obs"
    using inactive by simp
  note a = run_steps_branches [OF gate inactive, of h]
  note b = run_steps_branches [OF gate inactive', of h, unfolded f]
  assume branch:
    "step s = STEP2_START_DISCHARGE \<and> logical = ''start_discharge'' \<and>
       nxt = STEP3_CONNECTOR_RESET \<and> wait = wait_after_step2 (cfg su) \<or>
     step s = STEP3_CONNECTOR_RESET \<and> logical = ''unlock_connector'' \<and>
       nxt = STEP3_CONNECTOR_RESET_LOCK \<and> wait = wait_between_unlock_lock (cfg su) \<or>
     step s = STEP3_CONNECTOR_RESET_LOCK \<and> logical = ''lock_connector'' \<and>
       nxt = STEP4_START_CHARGE \<and> wait = wait_after_step3 (cfg su) \<or>
     step s = STEP4_START_CHARGE \<and> logical = ''start_charge'' \<and>
       nxt = STEP4_START_CHARGE_STOP \<and> wait = step4_charge_duration (cfg su) \<or>
     step s = STEP4_START_CHARGE_STOP \<and> logical = ''stop'' \<and>
       nxt = first_step su \<and> wait = wait_after_step4_stop (cfg su)"
  have both: "run_steps su h obs now s =
        (s\<lparr>next_action_at := Some (now + wait), step := nxt\<rparr>, []) \<and>
      run_steps ?su h obs now s =
        (s\<lparr>next_action_at := Some (now + wait), step := nxt\<rparr>, [ButtonPress entity])"
    using branch
  proof (elim disjE conjE)
    assume "step s = STEP2_START_DISCHARGE" "logical = ''start_discharge''"
      "nxt = STEP3_CONNECTOR_RESET" "wait = wait_after_step2 (cfg su)"
    with p q a(1) b(1) show ?thesis by simp
  next
    assume "step s = STEP3_CONNECTOR_RESET" "logical = ''unlock_connector''"
      "nxt = STEP3_CONNECTOR_RESET_LOCK" "wait = wait_between_unlock_lock (cfg su)"
    with p q a(2) b(2) show ?thesis by simp
  next
    assume "step s = STEP3_CONNECTOR_RESET_LOCK" "logical = ''lock_connector''"
      "nxt = STEP4_START_CHARGE" "wait = wait_after_step3 (cfg su)"
    with p q a(3) b(3) show ?thesis by simp
  next
    assume "step s = STEP4_START_CHARGE" "logical = ''start_charge''"
      "nxt = STEP4_START_CHARGE_STOP" "wait = step4_charge_duration (cfg su)"
    with p q a(4) b(4) show ?thesis by simp
  next
    assume "step s = STEP4_START_CHARGE_STOP" "logical = ''stop''"
      "nxt = first_step su" "wait = wait_after_step4_stop (cfg su)"
    with p q a(5) b(5) show ?thesis by simp
  qed
  from both show "run_steps su h obs now s =
        (s\<lparr>next_action_at := Some (now + wait), step := nxt\<rparr>, [])" ..
  from both show "run_steps ?su h obs now s =
        (s\<lparr>next_action_at := Some (now + wait), step := nxt\<rparr>, [ButtonPress entity])" ..
qed

theorem unmapped_press_still_advances_witness:
  "(let obs = \<lparr>connected = True, cable_locked = True, soc = None, charging_kw = 0,
                discharging_kw = 0, grid_sold_kw = 1, grid_bought_kw = 0\<rparr>;
        su = \<lparr>cfg = RecoveryConfig_default, services = Map.empty, supports_timer_toggles = False\<rparr>;
        h = spec_helpers RecoveryConfig_default 180000000;
        s = \<lparr>step = STEP2_START_DISCHARGE, attempt = 1, since_idle_wrong = Some 0,
              next_action_at = Some 180000000, cooldown_until = None\<rparr>
    in press_button (services su) ''start_discharge'' = [] \<and>
       run_steps su h obs 180000000 s =
         (s\<lparr>next_action_at := Some 240000000, step := STEP3_CONNECTOR_RESET\<rparr>, []) \<and>
       run_steps (su\<lparr>services := [''start_discharge'' \<mapsto> ''button.v2h_start_discharge'']\<rparr>)
           h obs 180000000 s =
         (s\<lparr>next_action_at := Some 240000000, step := STEP3_CONNECTOR_RESET\<rparr>,
          [ButtonPress ''button.v2h_start_discharge'']))"
proof -
  define obs where "obs = \<lparr>connected = True, cable_locked = True, soc = None, charging_kw = 0,
                discharging_kw = 0, grid_sold_kw = 1, grid_bought_kw = 0\<rparr>"
  define su where "su = \<lparr>cfg = RecoveryConfig_default, services = (Map.empty :: string \<rightharpoonup> string),
               supports_timer_toggles = False\<rparr>"
  define h where "h = spec_helpers RecoveryConfig_default 180000000"
  define s where "s = \<lparr>step = STEP2_START_DISCHARGE, attempt = 1, since_idle_wrong = Some 0,
              next_action_at = Some 180000000, cooldown_until = (None :: int option)\<rparr>"
  have 1: "services su ''start_discharge'' = None" by (simp add: su_def)
  have 2: "step s = STEP2_START_DISCHARGE \<and> ''start_discharge'' = ''start_discharge'' \<and>
         STEP3_CONNECTOR_RESET = STEP3_CONNECTOR_RESET \<and> 60000000 = wait_after_step2 (cfg su) \<or>
       step s = STEP3_CONNECTOR_RESET \<and> ''start_discharge'' = ''unlock_connector'' \<and>
         STEP3_CONNECTOR_RESET = STEP3_CONNECTOR_RESET_LOCK \<and> 60000000 = wait_between_unlock_lock (cfg su) \<or>
       step s = STEP3_CONNECTOR_RESET_LOCK \<and> ''start_discharge'' = ''lock_connector'' \<and>
         STEP3_CONNECTOR_RESET = STEP4_START_CHARGE \<and> 60000000 = wait_after_step3 (cfg su) \<or>
       step s = STEP4_START_CHARGE \<and> ''start_discharge'' = ''start_charge'' \<and>
         STEP3_CONNECTOR_RESET = STEP4_START_CHARGE_STOP \<and> 60000000 = step4_charge_duration (cfg su) \<or>
       step s = STEP4_START_CHARGE_STOP \<and> ''start_discharge'' = ''stop'' \<and>
         STEP3_CONNECTOR_RESET = first_step su \<and> 60000000 = wait_after_step4_stop (cfg su)"
    by (simp add: s_def su_def RecoveryConfig_default_def seconds_def)
  have 3: "case next_action_at s of None \<Rightarrow> True | Some due \<Rightarrow> due \<le> 180000000"
    by (simp add: s_def)
  have 4: "\<not> is_active (cfg su) obs"
    by (simp add: is_active_def su_def obs_def RecoveryConfig_default_def double_0_2_def)
  have 5: "''button.v2h_start_discharge'' \<noteq> []" by simp
  note t = unmapped_press_still_advances [OF 1 3 4 5,
      where nxt = STEP3_CONNECTOR_RESET and wait = 60000000 and h = h]
  note v = t [THEN conjunct1]
  note w = t [THEN conjunct2, THEN mp, OF 2]
  have u: "su\<lparr>services := (services su)(''start_discharge'' \<mapsto> ''button.v2h_start_discharge'')\<rparr> =
           su\<lparr>services := [''start_discharge'' \<mapsto> ''button.v2h_start_discharge'']\<rparr>"
    by (simp add: su_def)
  from v w show ?thesis
    unfolding Let_def obs_def [symmetric] su_def [symmetric] h_def [symmetric] s_def [symmetric] u
    by simp
qed

subsection \<open>Detecting the stuck condition\<close>

text \<open>
  C5, as the code has it. Take a run of ticks that starts in Idle with no stuck time
  stamp recorded and with the attempt counter below the maximum, in which every tick
  finds the vehicle connected, the cable locked, no cooldown pending, grid-sold power
  above 0.05 and both powers below their on-thresholds. Let \<open>t0\<close> be the clock reading
  of the first of these ticks. After every tick whose reading is less than the stuck
  duration past \<open>t0\<close> the supervisor is in Idle with \<open>t0\<close> recorded, and no call has
  been issued. The first tick at or past that duration counts an attempt, performs the
  action of the first active step (the timer toggle, or the press of start\_discharge)
  and leaves the supervisor waiting in the step that follows it.
\<close>

theorem stuck_detection_timing:
  assumes idle: "step s = IDLE" and fresh: "since_idle_wrong s = None"
    and budget: "attempt s < max_attempts (cfg su)"
    and held: "list_all (\<lambda>(obs, t, t_cd). connected obs \<and> cable_locked obs \<and> \<not> in_cooldown s t_cd \<and>
            grid_sold_kw obs > double_0_05 \<and> charging_kw obs < chg_on_kw (cfg su) \<and>
            discharging_kw obs < dis_on_kw (cfg su)) (ticks @ [(obs, now, now_cd)])"
    and began: "t0 = fst (snd (hd (ticks @ [(obs, now, now_cd)])))"
    and early: "list_all (\<lambda>(obs, t, t_cd). t - t0 < stuck_after (cfg su)) ticks"
    and due: "stuck_after (cfg su) \<le> now - t0"
  shows "(\<forall>k. 0 < k \<and> k \<le> length ticks \<longrightarrow>
            run_ticks su h (take k ticks) s = (s\<lparr>since_idle_wrong := Some t0\<rparr>, [])) \<and>
         tick su h obs now now_cd (fst (run_ticks su h ticks s)) =
           (if supports_timer_toggles su
            then (s\<lparr>since_idle_wrong := Some t0, attempt := attempt s + 1,
                    next_action_at := Some (now + wait_after_step1 (cfg su)),
                    step := STEP2_START_DISCHARGE\<rparr>, [ToggleOptionalTimers])
            else (s\<lparr>since_idle_wrong := Some t0, attempt := attempt s + 1,
                    next_action_at := Some (now + wait_after_step2 (cfg su)),
                    step := STEP3_CONNECTOR_RESET\<rparr>,
                  press_button (services su) ''start_discharge''))"
proof -
  let ?P = "\<lambda>(obs, t, t_cd). connected obs \<and> cable_locked obs \<and> \<not> in_cooldown s t_cd \<and>
            should_be_active obs \<and> \<not> is_active (cfg su) obs \<and> t - t0 < stuck_after (cfg su)"
  have all: "list_all ?P ticks"
    using held early by (auto simp add: list_all_iff not_active sold_should)
  have last: "connected obs" "cable_locked obs" "\<not> in_cooldown s now_cd"
    "should_be_active obs" "\<not> is_active (cfg su) obs"
    using held by (auto simp add: not_active sold_should)
  have pre: "run_ticks su h (take k ticks) s = (s\<lparr>since_idle_wrong := Some t0\<rparr>, [])"
    if k: "0 < k" "k \<le> length ticks" for k
  proof -
    from k have ne: "ticks \<noteq> []" "take k ticks \<noteq> []" by auto
    then have hd: "t0 = fst (snd (hd (take k ticks)))"
      using began k by (cases ticks; cases k) auto
    have "list_all ?P (take k ticks)"
      using all by (auto simp add: list_all_iff dest: in_set_takeD)
    with idle fresh ne(2) hd show ?thesis by (rule run_ticks_early)
  qed
  have fire: "tick su h obs now now_cd (fst (run_ticks su h ticks s)) =
           (if supports_timer_toggles su
            then (s\<lparr>since_idle_wrong := Some t0, attempt := attempt s + 1,
                    next_action_at := Some (now + wait_after_step1 (cfg su)),
                    step := STEP2_START_DISCHARGE\<rparr>, [ToggleOptionalTimers])
            else (s\<lparr>since_idle_wrong := Some t0, attempt := attempt s + 1,
                    next_action_at := Some (now + wait_after_step2 (cfg su)),
                    step := STEP3_CONNECTOR_RESET\<rparr>,
                  press_button (services su) ''start_discharge''))"
  proof (cases "ticks = []")
    case True
    then have "t0 = now" using began by simp
    then show ?thesis
      using True tick_idle_fire [of s t0 now obs now_cd su h] idle fresh budget last due
      by simp
  next
    case False
    let ?s = "s\<lparr>since_idle_wrong := Some t0\<rparr>"
    from False have "run_ticks su h ticks s = (?s, [])"
      using pre [of "length ticks"] by simp
    moreover have "\<not> in_cooldown ?s now_cd"
      using last(3) by (simp add: in_cooldown_def)
    ultimately show ?thesis
      using tick_idle_fire [of ?s t0 now obs now_cd su h] idle budget last due
      by simp
  qed
  from pre fire show ?thesis by blast
qed

theorem stuck_detection_timing_witness:
  "(let obs = \<lparr>connected = True, cable_locked = True, soc = None, charging_kw = 0,
                discharging_kw = 0, grid_sold_kw = 1, grid_bought_kw = 0\<rparr>;
        su = \<lparr>cfg = RecoveryConfig_default,
               services = [''start_discharge'' \<mapsto> ''button.v2h_start_discharge''],
               supports_timer_toggles = False\<rparr>;
        h = spec_helpers RecoveryConfig_default 0;
        ticks = [(obs, 0, 0), (obs, 2000000, 2000000), (obs, 178000000, 178000000)]
    in run_ticks su h (take 1 ticks) NissanRecoveryController_init =
         (NissanRecoveryController_init\<lparr>since_idle_wrong := Some 0\<rparr>, []) \<and>
       run_ticks su h (take 3 ticks) NissanRecoveryController_init =
         (NissanRecoveryController_init\<lparr>since_idle_wrong := Some 0\<rparr>, []) \<and>
       tick su h obs 180000000 180000000 (fst (run_ticks su h ticks NissanRecoveryController_init)) =
         (\<lparr>step = STEP3_CONNECTOR_RESET, attempt = 1, since_idle_wrong = Some 0,
           next_action_at = Some 240000000, cooldown_until = None\<rparr>,
          [ButtonPress ''button.v2h_start_discharge'']))"
proof -
  define obs where "obs = \<lparr>connected = True, cable_locked = True, soc = None, charging_kw = 0,
                discharging_kw = 0, grid_sold_kw = 1, grid_bought_kw = 0\<rparr>"
  define su where "su = \<lparr>cfg = RecoveryConfig_default,
               services = [''start_discharge'' \<mapsto> ''button.v2h_start_discharge''],
               supports_timer_toggles = False\<rparr>"
  define h where "h = spec_helpers RecoveryConfig_default 0"
  define ticks where
    "ticks = [(obs, 0 :: int, 0 :: int), (obs, 2000000, 2000000), (obs, 178000000, 178000000)]"
  let ?s = NissanRecoveryController_init
  have 1: "step ?s = IDLE" and 2: "since_idle_wrong ?s = None"
    and 3: "attempt ?s < max_attempts (cfg su)"
    by (simp_all add: NissanRecoveryController_init_def su_def RecoveryConfig_default_def)
  have 4: "list_all (\<lambda>(obs, t, t_cd). connected obs \<and> cable_locked obs \<and> \<not> in_cooldown ?s t_cd \<and>
            grid_sold_kw obs > double_0_05 \<and> charging_kw obs < chg_on_kw (cfg su) \<and>
            discharging_kw obs < dis_on_kw (cfg su)) (ticks @ [(obs, 180000000, 180000000)])"
    by (simp add: ticks_def obs_def su_def in_cooldown_def NissanRecoveryController_init_def
        RecoveryConfig_default_def double_0_05_def double_0_2_def)
  have 5: "0 = fst (snd (hd (ticks @ [(obs, 180000000 :: int, 180000000 :: int)])))"
    by (simp add: ticks_def)
  have 6: "list_all (\<lambda>(obs, t, t_cd). t - 0 < stuck_after (cfg su)) ticks"
    by (simp add: ticks_def su_def RecoveryConfig_default_def minutes_def)
  have 7: "stuck_after (cfg su) \<le> 180000000 - 0"
    by (simp add: su_def RecoveryConfig_default_def minutes_def)
  note w = stuck_detection_timing [OF 1 2 3 4 5 6 7, of h]
  have len: "length ticks = 3" by (simp add: ticks_def)
  from w have pre: "run_ticks su h (take k ticks) ?s = (?s\<lparr>since_idle_wrong := Some 0\<rparr>, [])"
    if "0 < k" "k \<le> length ticks" for k
    using that by blast
  have a: "run_ticks su h (take 1 ticks) ?s = (?s\<lparr>since_idle_wrong := Some 0\<rparr>, [])"
    and b: "run_ticks su h (take 3 ticks) ?s = (?s\<lparr>since_idle_wrong := Some 0\<rparr>, [])"
    using pre [of 1] pre [of 3] by (simp_all add: len)
  from w have c: "tick su h obs 180000000 180000000 (fst (run_ticks su h ticks ?s)) =
         (\<lparr>step = STEP3_CONNECTOR_RESET, attempt = 1, since_idle_wrong = Some 0,
           next_action_at = Some 240000000, cooldown_until = None\<rparr>,
          [ButtonPress ''button.v2h_start_discharge''])"
    by (simp add: su_def NissanRecoveryController_init_def RecoveryConfig_default_def
        seconds_def press_button_def)
  from a b c show ?thesis
    unfolding Let_def obs_def [symmetric] su_def [symmetric] h_def [symmetric] ticks_def [symmetric]
    by simp
qed

text \<open>
  Against C5 as stated: with a maximum of zero attempts the tick at the stuck duration
  enters Failed and issues nothing; and in Idle with a cooldown pending the ticks at 0
  and at the stuck duration change nothing at all, the stuck time stamp included.
\<close>

theorem stuck_detection_timing_counterexample:
  "(let obs = \<lparr>connected = True, cable_locked = True, soc = None, charging_kw = 0,
                discharging_kw = 0, grid_sold_kw = 1, grid_bought_kw = 0\<rparr>;
        su = \<lparr>cfg = RecoveryConfig_default\<lparr>max_attempts := 0\<rparr>,
               services = [''start_discharge'' \<mapsto> ''button.v2h_start_discharge''],
               supports_timer_toggles = False\<rparr>;
        h = spec_helpers (cfg su) 180000000;
        r = run_ticks su h [(obs, 0, 0), (obs, 180000000, 180000000)] NissanRecoveryController_init
    in step (fst r) = FAILED \<and> snd r = []) \<and>
   (let obs = \<lparr>connected = True, cable_locked = True, soc = None, charging_kw = 0,
                discharging_kw = 0, grid_sold_kw = 1, grid_bought_kw = 0\<rparr>;
        su = \<lparr>cfg = RecoveryConfig_default,
               services = [''start_discharge'' \<mapsto> ''button.v2h_start_discharge''],
               supports_timer_toggles = False\<rparr>;
        h = spec_helpers (cfg su) 180000000;
        s = NissanRecoveryController_init\<lparr>cooldown_until := Some 600000000\<rparr>
    in run_ticks su h [(obs, 0, 0), (obs, 180000000, 180000000)] s = (s, []))"
  by (simp add: sup_eval)

subsection \<open>Failed and the cooldown\<close>




end
